theory Spec2Isabelle
  imports Main "HOL-Library.Code_Target_Nat"
begin

section \<open>LSH: a shallow embedding of \<^verbatim>\<open>src/main.c\<close>\<close>

text \<open>
  The shell reads a line, splits it into tokens and either runs a builtin or launches a
  child process. Everything the C code does beyond computing a value is explicit here:
  the streams, the working directory and the children of the process are fields of a
  \<open>world\<close>; what the operating system answers (whether an allocation succeeds, whether
  \<open>chdir\<close>, \<open>fork\<close> and \<open>execvp\<close> succeed, what a launched program does) is read from
  an \<open>os\<close> record of functions, so that every theorem below holds for every possible
  behaviour of the operating system.

  Conventions.
  \<^item> A value of C type \<^verbatim>\<open>char *\<close> is modelled by the list of the characters stored before
    its terminating NUL; a NULL-terminated \<^verbatim>\<open>char **\<close> by the list of its strings.
  \<^item> The streams are modelled at the level of the characters handed to \<^verbatim>\<open>printf\<close>,
    \<^verbatim>\<open>fprintf\<close> and \<^verbatim>\<open>perror\<close> and taken by \<^verbatim>\<open>getchar\<close>; buffering inside stdio is not
    modelled. The standard input is the list of the characters still to be read; reading
    past its end is end-of-file.
  \<^item> \<^verbatim>\<open>main.c\<close> is modelled as it compiles by default, that is without
    \<^verbatim>\<open>LSH_USE_STD_GETLINE\<close>.
  \<^item> \<^verbatim>\<open>waitpid\<close> on the child just created is taken to succeed, so that \<^verbatim>\<open>status\<close> is
    written by every call.
\<close>

subsection \<open>World, operating system and results\<close>

record world =
  stdin :: string
  stdout :: string
  stderr :: string
  cwd :: string
  errno :: nat
  children :: nat
  clock :: nat

text \<open>
  \<open>children\<close> counts the child processes created and not yet reaped; \<open>clock\<close> counts the
  requests made to the operating system, so that the answer to a request may depend on
  when it is made.
\<close>

datatype wstatus = WExited int | WSignaled nat | WStopped nat

fun WIFEXITED :: "wstatus \<Rightarrow> bool" where
  "WIFEXITED (WExited c) = True"
| "WIFEXITED (WSignaled s) = False"
| "WIFEXITED (WStopped s) = False"

fun WIFSIGNALED :: "wstatus \<Rightarrow> bool" where
  "WIFSIGNALED (WExited c) = False"
| "WIFSIGNALED (WSignaled s) = True"
| "WIFSIGNALED (WStopped s) = False"

fun WIFSTOPPED :: "wstatus \<Rightarrow> bool" where
  "WIFSTOPPED (WExited c) = False"
| "WIFSTOPPED (WSignaled s) = False"
| "WIFSTOPPED (WStopped s) = True"

fun WEXITSTATUS :: "wstatus \<Rightarrow> int option" where
  "WEXITSTATUS (WExited c) = Some c"
| "WEXITSTATUS (WSignaled s) = None"
| "WEXITSTATUS (WStopped s) = None"

text \<open>
  What a process started by \<^verbatim>\<open>fork\<close> does, as its parent sees it: how many characters
  of the shared standard input it takes, what it writes to the shared output and error
  streams, and the statuses that successive calls of
  \<^verbatim>\<open>waitpid(pid, &status, WUNTRACED)\<close> report. When the list of statuses is used up
  the next \<^verbatim>\<open>waitpid\<close> blocks for ever.
\<close>

record child_run =
  run_consumed :: nat
  run_out :: string
  run_err :: string
  run_statuses :: "wstatus list"

record os =
  os_alloc :: "world \<Rightarrow> nat \<Rightarrow> bool"
  os_chdir :: "world \<Rightarrow> string \<Rightarrow> nat + string"
  os_fork :: "world \<Rightarrow> nat + nat"
  os_execvp :: "world \<Rightarrow> string \<Rightarrow> string list \<Rightarrow> nat + child_run"
  os_strerror :: "nat \<Rightarrow> string"

text \<open>
  \<open>os_alloc w n\<close>: a request for \<open>n\<close> bytes succeeds. \<open>os_chdir w path\<close>: an error
  number, or the new working directory. \<open>os_fork w\<close>: an error number, or the process
  id of the child, counted from 0 for process id 1. \<open>os_execvp w file argv\<close>: an error
  number, or the run of the program.

  A call of the code returns a value, or ends the process with an exit status, or never
  returns, or has undefined behaviour in C (an index out of bounds, a signed overflow,
  a null pointer handed to a library function).
\<close>

datatype 'a result = Returns 'a world | Exits int world | Hangs | UB

definition EXIT_SUCCESS :: int where
  "EXIT_SUCCESS = 0"

definition EXIT_FAILURE :: int where
  "EXIT_FAILURE = 1"

definition INT_MAX :: nat where
  "INT_MAX = 2147483647"

definition sizeof_char :: nat where
  "sizeof_char = 1"

definition sizeof_char_ptr :: nat where
  "sizeof_char_ptr = 8"

definition NUL :: char where
  "NUL = CHR 0x00"

definition NL :: char where
  "NL = CHR 0x0A"

subsection \<open>The C library\<close>

definition c_str :: "string \<Rightarrow> string" where
  "c_str buffer = takeWhile (\<lambda>c. c \<noteq> NUL) buffer"

definition printf :: "string \<Rightarrow> world \<Rightarrow> world" where
  "printf s w = w\<lparr>stdout := stdout w @ s\<rparr>"

definition fprintf_stderr :: "string \<Rightarrow> world \<Rightarrow> world" where
  "fprintf_stderr s w = w\<lparr>stderr := stderr w @ s\<rparr>"

definition perror_text :: "os \<Rightarrow> string \<Rightarrow> nat \<Rightarrow> string" where
  "perror_text os s e = s @ '': '' @ os_strerror os e @ [NL]"

definition perror :: "os \<Rightarrow> string \<Rightarrow> world \<Rightarrow> world" where
  "perror os s w = fprintf_stderr (perror_text os s (errno w)) w"

definition getchar :: "world \<Rightarrow> char option \<times> world" where
  "getchar w = (case stdin w of
                  [] \<Rightarrow> (None, w)
                | c # rest \<Rightarrow> (Some c, w\<lparr>stdin := rest\<rparr>))"

definition malloc :: "os \<Rightarrow> nat \<Rightarrow> world \<Rightarrow> bool \<times> world" where
  "malloc os n w = (os_alloc os w n, w\<lparr>clock := Suc (clock w)\<rparr>)"

definition realloc :: "os \<Rightarrow> nat \<Rightarrow> world \<Rightarrow> bool \<times> world" where
  "realloc os n w = (os_alloc os w n, w\<lparr>clock := Suc (clock w)\<rparr>)"

definition chdir :: "os \<Rightarrow> string \<Rightarrow> world \<Rightarrow> int \<times> world" where
  "chdir os path w =
     (case os_chdir os w path of
        Inl e \<Rightarrow> (- 1, w\<lparr>errno := e, clock := Suc (clock w)\<rparr>)
      | Inr dir \<Rightarrow> (0, w\<lparr>cwd := dir, clock := Suc (clock w)\<rparr>))"

text \<open>
  \<open>fork\<close> as the calling process sees it: \<open>- 1\<close> and no new process, or the positive
  process id of a new child. The value 0 is returned in the child only.
\<close>

definition forked :: "world \<Rightarrow> world" where
  "forked w = w\<lparr>children := Suc (children w), clock := Suc (clock w)\<rparr>"

definition fork :: "os \<Rightarrow> world \<Rightarrow> int \<times> world" where
  "fork os w =
     (case os_fork os w of
        Inl e \<Rightarrow> (- 1, w\<lparr>errno := e, clock := Suc (clock w)\<rparr>)
      | Inr p \<Rightarrow> (1 + int p, forked w))"

fun strcmp :: "string \<Rightarrow> string \<Rightarrow> int" where
  "strcmp [] [] = 0"
| "strcmp [] (b # bs) = - int (of_char b)"
| "strcmp (a # as) [] = int (of_char a)"
| "strcmp (a # as) (b # bs) =
     (if a = b then strcmp as bs else int (of_char a) - int (of_char b))"

definition strspn :: "string \<Rightarrow> string \<Rightarrow> nat" where
  "strspn s accept = length (takeWhile (\<lambda>c. c \<in> set accept) s)"

definition strcspn :: "string \<Rightarrow> string \<Rightarrow> nat" where
  "strcspn s reject = length (takeWhile (\<lambda>c. c \<notin> set reject) s)"

text \<open>
  \<open>strtok\<close> with its static pointer made explicit: from the string the pointer is at, the
  token found (\<open>None\<close> for NULL) and the string the pointer is left at. A token is the
  string at its first character once the delimiter after it has been overwritten by NUL;
  later calls write behind it only.
\<close>

definition strtok :: "string \<Rightarrow> string \<Rightarrow> string option \<times> string" where
  "strtok s delim =
     (let s1 = drop (strspn s delim) s in
      if s1 = [] then (None, s1)
      else
        let n = strcspn s1 delim; token = take n s1; e = drop n s1 in
        (Some token, if e = [] then e else tl e))"

subsection \<open>The builtin commands\<close>

definition builtin_str :: "string list" where
  "builtin_str = [''cd'', ''help'', ''exit'']"

definition lsh_num_builtins :: nat where
  "lsh_num_builtins = (length builtin_str * sizeof_char_ptr) div sizeof_char_ptr"

text \<open>Reading \<open>a[i]\<close> from an array of known length; outside it the read is undefined.\<close>

definition index :: "'a list \<Rightarrow> nat \<Rightarrow> 'a option" where
  "index a i = (if i < length a then Some (a ! i) else None)"

text \<open>The message of \<open>lsh_cd\<close>; \<open>CHR 0x22\<close> is the double quote.\<close>

definition usage_error :: string where
  "usage_error = ''lsh: expected argument to '' @ [CHR 0x22] @ ''cd'' @ [CHR 0x22] @ [NL]"

text \<open>\<open>lsh_cd\<close> reads \<^verbatim>\<open>args[1]\<close>, which lies behind the terminator when \<^verbatim>\<open>args[0]\<close> is NULL.\<close>

definition lsh_cd :: "os \<Rightarrow> string list \<Rightarrow> world \<Rightarrow> int result" where
  "lsh_cd os args w =
     (case args of
        [] \<Rightarrow> UB
      | [a0] \<Rightarrow> Returns 1 (fprintf_stderr usage_error w)
      | a0 # a1 # _ \<Rightarrow>
          (case chdir os a1 w of
             (rc, w1) \<Rightarrow> Returns 1 (if rc \<noteq> 0 then perror os ''lsh'' w1 else w1)))"

function help_for :: "nat \<Rightarrow> world \<Rightarrow> unit result" where
  "help_for i w =
     (if i < lsh_num_builtins then
        (case index builtin_str i of
           None \<Rightarrow> UB
         | Some name \<Rightarrow> help_for (Suc i) (printf (''  '' @ name @ [NL]) w))
      else Returns () w)"
  by pat_completeness auto
termination
  by (relation "measure (\<lambda>(i, w). lsh_num_builtins - i)") auto

definition lsh_help :: "os \<Rightarrow> string list \<Rightarrow> world \<Rightarrow> int result" where
  "lsh_help os args w =
     (let w1 = printf (''Stephen Brennan's LSH'' @ [NL]) w;
          w2 = printf (''Type program names and arguments, and hit enter.'' @ [NL]) w1;
          w3 = printf (''The following are built in:'' @ [NL]) w2
      in case help_for 0 w3 of
           Returns u w4 \<Rightarrow>
             Returns 1 (printf (''Use the man command for information on other programs.''
                                @ [NL]) w4)
         | Exits c w4 \<Rightarrow> Exits c w4
         | Hangs \<Rightarrow> Hangs
         | UB \<Rightarrow> UB)"

definition lsh_exit :: "os \<Rightarrow> string list \<Rightarrow> world \<Rightarrow> int result" where
  "lsh_exit os args w = Returns 0 w"

definition builtin_func :: "(os \<Rightarrow> string list \<Rightarrow> world \<Rightarrow> int result) list" where
  "builtin_func = [lsh_cd, lsh_help, lsh_exit]"

subsection \<open>Launching a program\<close>

text \<open>
  The branch \<^verbatim>\<open>pid == 0\<close> of \<open>lsh_launch\<close> runs in the child. When \<^verbatim>\<open>execvp\<close> fails
  the child reports the error and exits with \<^verbatim>\<open>EXIT_FAILURE\<close>; otherwise the child is
  the program. \<open>None\<close>: \<^verbatim>\<open>args[0]\<close> is NULL, which \<^verbatim>\<open>execvp\<close> must not be given.
\<close>

definition lsh_launch_child :: "os \<Rightarrow> string list \<Rightarrow> world \<Rightarrow> child_run option" where
  "lsh_launch_child os args w =
     (case args of
        [] \<Rightarrow> None
      | file # _ \<Rightarrow>
          Some (case os_execvp os w file args of
                  Inl e \<Rightarrow> \<lparr>run_consumed = 0, run_out = [],
                            run_err = perror_text os ''lsh'' e,
                            run_statuses = [WExited EXIT_FAILURE]\<rparr>
                | Inr run \<Rightarrow> run))"

text \<open>
  The loop \<^verbatim>\<open>do waitpid(pid, &status, WUNTRACED); while (!WIFEXITED(status) && !WIFSIGNALED(status))\<close>
  over the statuses the child will report: the status the loop ends on and the statuses
  never asked for, or \<open>None\<close> when \<^verbatim>\<open>waitpid\<close> blocks for ever.
\<close>

fun wait_loop :: "wstatus list \<Rightarrow> (wstatus \<times> wstatus list) option" where
  "wait_loop [] = None"
| "wait_loop (status # later) =
     (if \<not> WIFEXITED status \<and> \<not> WIFSIGNALED status then wait_loop later
      else Some (status, later))"

definition child_effects :: "child_run \<Rightarrow> world \<Rightarrow> world" where
  "child_effects run w =
     w\<lparr>stdin := drop (run_consumed run) (stdin w),
       stdout := stdout w @ run_out run,
       stderr := stderr w @ run_err run\<rparr>"

definition reap :: "world \<Rightarrow> world" where
  "reap w = w\<lparr>children := children w - 1\<rparr>"

definition lsh_launch :: "os \<Rightarrow> string list \<Rightarrow> world \<Rightarrow> int result" where
  "lsh_launch os args w =
     (case fork os w of
        (pid, w1) \<Rightarrow>
          if pid < 0 then Returns 1 (perror os ''lsh'' w1)
          else
            (case lsh_launch_child os args w1 of
               None \<Rightarrow> UB
             | Some run \<Rightarrow>
                 (case wait_loop (run_statuses run) of
                    None \<Rightarrow> Hangs
                  | Some (status, later) \<Rightarrow> Returns 1 (reap (child_effects run w1)))))"

subsection \<open>The dispatcher\<close>

function execute_for :: "nat \<Rightarrow> os \<Rightarrow> string list \<Rightarrow> world \<Rightarrow> int result" where
  "execute_for i os args w =
     (if i < lsh_num_builtins then
        (case index builtin_str i of
           None \<Rightarrow> UB
         | Some name \<Rightarrow>
             (case args of
                [] \<Rightarrow> UB
              | a0 # _ \<Rightarrow>
                  if strcmp a0 name = 0 then
                    (case index builtin_func i of
                       None \<Rightarrow> UB
                     | Some handler \<Rightarrow> handler os args w)
                  else execute_for (Suc i) os args w))
      else lsh_launch os args w)"
  by pat_completeness auto
termination
  by (relation "measure (\<lambda>(i, os, args, w). lsh_num_builtins - i)") auto

definition lsh_execute :: "os \<Rightarrow> string list \<Rightarrow> world \<Rightarrow> int result" where
  "lsh_execute os args w =
     (case args of
        [] \<Rightarrow> Returns 1 w
      | a0 # _ \<Rightarrow> execute_for 0 os args w)"

subsection \<open>Reading a line\<close>

definition LSH_RL_BUFSIZE :: nat where
  "LSH_RL_BUFSIZE = 1024"

definition allocation_error :: string where
  "allocation_error = ''lsh: allocation error'' @ [NL]"

text \<open>
  The loop \<^verbatim>\<open>while (1)\<close> of \<open>lsh_read_line\<close>. \<open>buffer\<close> holds the characters stored so far,
  so that \<^verbatim>\<open>position\<close> is its length; a store at \<^verbatim>\<open>buffer[position]\<close> is inside the
  allocated block when \<^verbatim>\<open>position < bufsize\<close>. On a newline the terminator is stored and
  the buffer is returned as a string, which ends at the first NUL it holds.
\<close>

function read_while :: "os \<Rightarrow> nat \<Rightarrow> string \<Rightarrow> world \<Rightarrow> string result" where
  "read_while os bufsize buffer w =
     (case getchar w of
        (None, w1) \<Rightarrow> Exits EXIT_SUCCESS w1
      | (Some c, w1) \<Rightarrow>
          if \<not> length buffer < bufsize then UB
          else if c = NL then Returns (c_str buffer) w1
          else
            let buffer1 = buffer @ [c]; position = length buffer1 in
            if position \<ge> bufsize then
              if bufsize + LSH_RL_BUFSIZE > INT_MAX then UB
              else
                (case realloc os (bufsize + LSH_RL_BUFSIZE) w1 of
                   (False, w2) \<Rightarrow> Exits EXIT_FAILURE (fprintf_stderr allocation_error w2)
                 | (True, w2) \<Rightarrow> read_while os (bufsize + LSH_RL_BUFSIZE) buffer1 w2)
            else read_while os bufsize buffer1 w1)"
  by pat_completeness auto
termination
  by (relation "measure (\<lambda>(os, bufsize, buffer, w). length (stdin w))")
     (auto simp: getchar_def realloc_def split: list.splits)

definition lsh_read_line :: "os \<Rightarrow> world \<Rightarrow> string result" where
  "lsh_read_line os w =
     (case malloc os (sizeof_char * LSH_RL_BUFSIZE) w of
        (False, w1) \<Rightarrow> Exits EXIT_FAILURE (fprintf_stderr allocation_error w1)
      | (True, w1) \<Rightarrow> read_while os LSH_RL_BUFSIZE [] w1)"

subsection \<open>Splitting a line\<close>

definition LSH_TOK_BUFSIZE :: nat where
  "LSH_TOK_BUFSIZE = 64"

definition LSH_TOK_DELIM :: string where
  "LSH_TOK_DELIM = [CHR 0x20, CHR 0x09, CHR 0x0D, CHR 0x0A, CHR 0x07]"

lemma strtok_shorter:
  "strtok s delim = (Some token, save) \<Longrightarrow> length save < length s"
  by (auto simp: strtok_def Let_def split: if_splits)

lemma strtok_not_longer:
  "strtok s delim = (token, save) \<Longrightarrow> length save \<le> length s"
  by (auto simp: strtok_def Let_def split: if_splits)

text \<open>
  The loop \<^verbatim>\<open>while (token != NULL)\<close> of \<open>lsh_split_line\<close>. \<open>tokens\<close> holds the pointers
  stored so far, so that \<^verbatim>\<open>position\<close> is its length; \<open>save\<close> is the static pointer of
  \<open>strtok\<close>.
\<close>

function split_while ::
  "os \<Rightarrow> nat \<Rightarrow> string list \<Rightarrow> string option \<Rightarrow> string \<Rightarrow> world \<Rightarrow> string list result"
where
  "split_while os bufsize tokens token save w =
     (case token of
        None \<Rightarrow> if length tokens < bufsize then Returns tokens w else UB
      | Some t \<Rightarrow>
          if \<not> length tokens < bufsize then UB
          else
            let tokens1 = tokens @ [t]; position = length tokens1 in
            if position \<ge> bufsize then
              if bufsize + LSH_TOK_BUFSIZE > INT_MAX then UB
              else
                (case realloc os ((bufsize + LSH_TOK_BUFSIZE) * sizeof_char_ptr) w of
                   (False, w1) \<Rightarrow> Exits EXIT_FAILURE (fprintf_stderr allocation_error w1)
                 | (True, w1) \<Rightarrow>
                     (case strtok save LSH_TOK_DELIM of
                        (token1, save1) \<Rightarrow>
                          split_while os (bufsize + LSH_TOK_BUFSIZE) tokens1 token1 save1 w1))
            else
              (case strtok save LSH_TOK_DELIM of
                 (token1, save1) \<Rightarrow> split_while os bufsize tokens1 token1 save1 w))"
  by pat_completeness auto
termination
  by (relation "measure (\<lambda>(os, bufsize, tokens, token, save, w).
                  length save + (case token of None \<Rightarrow> 0 | Some t \<Rightarrow> 1))")
     (auto dest: strtok_shorter [OF sym] strtok_not_longer [OF sym] simp: less_Suc_eq_le
           split: option.splits)

definition lsh_split_line :: "os \<Rightarrow> string \<Rightarrow> world \<Rightarrow> string list result" where
  "lsh_split_line os line w =
     (case malloc os (LSH_TOK_BUFSIZE * sizeof_char_ptr) w of
        (False, w1) \<Rightarrow> Exits EXIT_FAILURE (fprintf_stderr allocation_error w1)
      | (True, w1) \<Rightarrow>
          (case strtok line LSH_TOK_DELIM of
             (token, save) \<Rightarrow> split_while os LSH_TOK_BUFSIZE [] token save w1))"

subsection \<open>Unfolding the loops\<close>

declare read_while.simps [simp del] split_while.simps [simp del]
declare help_for.simps [simp del] execute_for.simps [simp del]

lemma read_while_eof:
  "stdin w = [] \<Longrightarrow> read_while os bufsize buffer w = Exits EXIT_SUCCESS w"
  by (simp add: read_while.simps [of os bufsize buffer w] getchar_def)

lemma read_while_char:
  "stdin w = c # rest \<Longrightarrow>
   read_while os bufsize buffer w =
     (if \<not> length buffer < bufsize then UB
      else if c = NL then Returns (c_str buffer) (w\<lparr>stdin := rest\<rparr>)
      else if Suc (length buffer) < bufsize then
        read_while os bufsize (buffer @ [c]) (w\<lparr>stdin := rest\<rparr>)
      else if bufsize + LSH_RL_BUFSIZE > INT_MAX then UB
      else if os_alloc os (w\<lparr>stdin := rest\<rparr>) (bufsize + LSH_RL_BUFSIZE) then
        read_while os (bufsize + LSH_RL_BUFSIZE) (buffer @ [c])
          (w\<lparr>stdin := rest, clock := Suc (clock w)\<rparr>)
      else Exits EXIT_FAILURE
             (fprintf_stderr allocation_error (w\<lparr>stdin := rest, clock := Suc (clock w)\<rparr>)))"
  by (simp add: read_while.simps [of os bufsize buffer w] getchar_def realloc_def Let_def)

lemma read_while_stdin:
  "stdin w = inp \<Longrightarrow> read_while os bufsize buffer w = Returns line w' \<Longrightarrow>
   length (stdin w') < length inp"
proof (induction inp arbitrary: w bufsize buffer)
  case Nil
  then show ?case by (simp add: read_while_eof)
next
  case (Cons c rest)
  from Cons.prems show ?case
    by (auto simp: read_while_char [of w c rest] split: if_splits dest!: Cons.IH [rotated])
qed

lemma split_while_None:
  "split_while os bufsize tokens None save w =
     (if length tokens < bufsize then Returns tokens w else UB)"
  by (simp add: split_while.simps [of os bufsize tokens None save w])

lemma split_while_Some:
  "split_while os bufsize tokens (Some t) save w =
     (if \<not> length tokens < bufsize then UB
      else if Suc (length tokens) < bufsize then
        split_while os bufsize (tokens @ [t]) (fst (strtok save LSH_TOK_DELIM))
          (snd (strtok save LSH_TOK_DELIM)) w
      else if bufsize + LSH_TOK_BUFSIZE > INT_MAX then UB
      else if os_alloc os w ((bufsize + LSH_TOK_BUFSIZE) * sizeof_char_ptr) then
        split_while os (bufsize + LSH_TOK_BUFSIZE) (tokens @ [t])
          (fst (strtok save LSH_TOK_DELIM)) (snd (strtok save LSH_TOK_DELIM))
          (w\<lparr>clock := Suc (clock w)\<rparr>)
      else Exits EXIT_FAILURE (fprintf_stderr allocation_error (w\<lparr>clock := Suc (clock w)\<rparr>)))"
  by (simp add: split_while.simps [of os bufsize tokens "Some t" save w] realloc_def Let_def
           split: prod.splits)

lemma split_while_stdin:
  "split_while os bufsize tokens token save w = Returns ts w' \<Longrightarrow> stdin w' = stdin w"
proof (induction os bufsize tokens token save w rule: split_while.induct)
  case (1 os bufsize tokens token save w)
  show ?case
  proof (cases token)
    case None
    with "1.prems" show ?thesis by (simp add: split_while_None split: if_splits)
  next
    case (Some t)
    obtain token1 save1 where st: "strtok save LSH_TOK_DELIM = (token1, save1)"
      by (cases "strtok save LSH_TOK_DELIM")
    from "1.prems" Some st show ?thesis
      using "1.IH"(1) [OF Some _ refl refl _ _ _ _ st [symmetric]]
            "1.IH"(2) [OF Some _ refl refl _ st [symmetric]]
      by (auto simp: split_while_Some realloc_def split: if_splits)
  qed
qed

lemma lsh_num_builtins_eq: "lsh_num_builtins = 3"
  by (simp add: lsh_num_builtins_def builtin_str_def sizeof_char_ptr_def)

lemma help_for_0:
  "help_for 0 w =
     Returns () (printf (''  exit'' @ [NL]) (printf (''  help'' @ [NL]) (printf (''  cd'' @ [NL]) w)))"
  by (simp add: help_for.simps [of 0] help_for.simps [of "Suc 0"] help_for.simps [of "Suc (Suc 0)"]
        help_for.simps [of "Suc (Suc (Suc 0))"] lsh_num_builtins_eq index_def builtin_str_def)

lemma of_char_eq_0_iff: "(of_char c = (0::nat)) = (c = NUL)"
proof -
  have "(of_char c = (0::nat)) = (of_char c = (of_char NUL :: nat))" by (simp add: NUL_def)
  also have "\<dots> = (c = NUL)" by (rule of_char_eq_iff)
  finally show ?thesis .
qed

lemma strcmp_eq_0_iff:
  "NUL \<notin> set a \<Longrightarrow> NUL \<notin> set b \<Longrightarrow> (strcmp a b = 0) = (a = b)"
  by (induction a b rule: strcmp.induct) (auto simp: of_char_eq_0_iff)

lemma strcmp_refl: "strcmp a a = 0"
  by (induction a) auto

lemma lsh_cd_stdin: "lsh_cd os args w = Returns s w' \<Longrightarrow> stdin w' = stdin w"
  by (auto simp: lsh_cd_def fprintf_stderr_def chdir_def perror_def
           split: list.splits sum.splits if_splits)

lemma lsh_help_eq:
  "lsh_help os args w =
     Returns 1 (printf (''Stephen Brennan's LSH'' @ [NL]
                        @ ''Type program names and arguments, and hit enter.'' @ [NL]
                        @ ''The following are built in:'' @ [NL]
                        @ ''  cd'' @ [NL] @ ''  help'' @ [NL] @ ''  exit'' @ [NL]
                        @ ''Use the man command for information on other programs.'' @ [NL]) w)"
  by (simp add: lsh_help_def help_for_0 printf_def)

lemma lsh_launch_stdin:
  "lsh_launch os args w = Returns s w' \<Longrightarrow> length (stdin w') \<le> length (stdin w)"
  by (auto simp: lsh_launch_def fork_def forked_def perror_def fprintf_stderr_def reap_def
                 child_effects_def
           split: sum.splits if_splits option.splits)

lemma builtin_stdin:
  "index builtin_func i = Some handler \<Longrightarrow> handler os args w = Returns s w' \<Longrightarrow>
   length (stdin w') \<le> length (stdin w)"
  by (auto simp: index_def builtin_func_def nth_Cons lsh_help_eq printf_def lsh_exit_def
           dest: lsh_cd_stdin split: if_splits nat.splits)

lemma execute_for_stdin:
  "execute_for i os args w = Returns s w' \<Longrightarrow> length (stdin w') \<le> length (stdin w)"
proof (induction i os args w rule: execute_for.induct)
  case (1 i os args w)
  from "1.prems" show ?case
    by (auto simp: execute_for.simps [of i os args w] 
             split: if_splits option.splits list.splits
             dest: builtin_stdin lsh_launch_stdin "1.IH")
qed

lemma lsh_execute_stdin:
  "lsh_execute os args w = Returns s w' \<Longrightarrow> length (stdin w') \<le> length (stdin w)"
  by (auto simp: lsh_execute_def split: list.splits dest: execute_for_stdin)

lemma lsh_read_line_stdin:
  "lsh_read_line os w = Returns line w' \<Longrightarrow> length (stdin w') < length (stdin w)"
  by (auto simp: lsh_read_line_def malloc_def split: bool.splits dest!: read_while_stdin [OF refl])

lemma lsh_split_line_stdin:
  "lsh_split_line os line w = Returns args w' \<Longrightarrow> stdin w' = stdin w"
  by (auto simp: lsh_split_line_def malloc_def split: bool.splits prod.splits
           dest!: split_while_stdin)

subsection \<open>The loop and the entry point\<close>

function lsh_loop :: "os \<Rightarrow> world \<Rightarrow> unit result" where
  "lsh_loop os w =
     (case lsh_read_line os (printf ''> '' w) of
        Returns line w1 \<Rightarrow>
          (case lsh_split_line os line w1 of
             Returns args w2 \<Rightarrow>
               (case lsh_execute os args w2 of
                  Returns status w3 \<Rightarrow>
                    if status \<noteq> 0 then lsh_loop os w3 else Returns () w3
                | Exits c w3 \<Rightarrow> Exits c w3
                | Hangs \<Rightarrow> Hangs
                | UB \<Rightarrow> UB)
           | Exits c w2 \<Rightarrow> Exits c w2
           | Hangs \<Rightarrow> Hangs
           | UB \<Rightarrow> UB)
      | Exits c w1 \<Rightarrow> Exits c w1
      | Hangs \<Rightarrow> Hangs
      | UB \<Rightarrow> UB)"
  by pat_completeness auto
termination
proof (relation "measure (\<lambda>(os, w). length (stdin w))", goal_cases)
  case 1
  show ?case by simp
next
  case (2 os w line w1 args w2 status w3)
  have "length (stdin w1) < length (stdin (printf ''> '' w))"
    using 2(1) by (rule lsh_read_line_stdin)
  moreover have "stdin w2 = stdin w1"
    using 2(2) by (rule lsh_split_line_stdin)
  moreover have "length (stdin w3) \<le> length (stdin w2)"
    using 2(3) by (rule lsh_execute_stdin)
  ultimately show ?case by (simp add: printf_def)
qed

declare lsh_loop.simps [simp del]

text \<open>Returning from \<open>main\<close> ends the process with the value returned.\<close>

definition main :: "os \<Rightarrow> world \<Rightarrow> unit result" where
  "main os w =
     (case lsh_loop os w of
        Returns u w1 \<Rightarrow> Exits EXIT_SUCCESS w1
      | Exits c w1 \<Rightarrow> Exits c w1
      | Hangs \<Rightarrow> Hangs
      | UB \<Rightarrow> UB)"

section \<open>The claims\<close>

text \<open>
  The return value 1 of a command is the signal to continue and 0 the signal to
  terminate: the loop of \<open>lsh_loop\<close> runs \<^verbatim>\<open>while (status)\<close>. An operating system and
  a world to run the code on:
\<close>

definition example_os :: os where
  "example_os =
     \<lparr>os_alloc = (\<lambda>w n. True),
      os_chdir = (\<lambda>w path. if path = ''/tmp'' then Inr ''/tmp'' else Inl 2),
      os_fork = (\<lambda>w. if clock w < 100 then Inr 41 else Inl 11),
      os_execvp = (\<lambda>w file argv.
         if file = ''true'' then
           Inr \<lparr>run_consumed = 0, run_out = [], run_err = [],
                run_statuses = [WStopped 19, WExited 0]\<rparr>
         else Inl 2),
      os_strerror = (\<lambda>e. if e = 2 then ''No such file or directory''
                         else ''Resource temporarily unavailable'')\<rparr>"

definition example_world :: "string \<Rightarrow> world" where
  "example_world input =
     \<lparr>stdin = input, stdout = [], stderr = [], cwd = ''/home'', errno = 0, children = 0,
      clock = 0\<rparr>"

subsection \<open>The builtins cd and help\<close>

text \<open>
  Claim C5. Called with its name only, \<open>lsh_cd\<close> writes the usage message to the error
  stream and returns 1, and nothing else of the world changes. Called with a directory
  that the operating system refuses, it writes \<^verbatim>\<open>lsh: \<close> and the message of the error
  to the error stream and returns 1; the working directory is the one before. Whatever
  the arguments after its name, it returns 1.
\<close>

theorem lsh_cd_failures:
  "lsh_cd os [a0] w = Returns 1 (w\<lparr>stderr := stderr w @ usage_error\<rparr>)
   \<and> (\<forall>e. os_chdir os w dir = Inl e \<longrightarrow>
          lsh_cd os (a0 # dir # rest) w =
            Returns 1 (w\<lparr>errno := e, clock := Suc (clock w),
                         stderr := stderr w @ ''lsh: '' @ os_strerror os e @ [NL]\<rparr>))
   \<and> (\<exists>w'. lsh_cd os (a0 # rest) w = Returns 1 w')"
  by (cases rest)
     (auto simp: lsh_cd_def usage_error_def fprintf_stderr_def chdir_def perror_def perror_text_def
           split: sum.splits)

theorem lsh_cd_failures_witness:
  "lsh_cd example_os [''cd'', ''/nonexistent-path''] (example_world []) =
     Returns 1 ((example_world [])\<lparr>errno := 2, clock := 1,
                  stderr := ''lsh: No such file or directory'' @ [NL]\<rparr>)
   \<and> cwd ((example_world [])\<lparr>errno := 2, clock := 1,
                  stderr := ''lsh: No such file or directory'' @ [NL]\<rparr>) = ''/home''"
  using lsh_cd_failures [of example_os "''cd''" "example_world []" "''/nonexistent-path''" "[]"]
  by (simp add: example_os_def example_world_def)

text \<open>
  Claim C10. With two or more arguments behind its name \<open>lsh_cd\<close> does what it does with
  the first alone: it changes to the first, or reports why the operating system refused,
  and returns 1. The usage message is not written.
\<close>

theorem lsh_cd_extra_arguments:
  "lsh_cd os (a0 # dir # extra # rest) w = lsh_cd os [a0, dir] w
   \<and> lsh_cd os (a0 # dir # extra # rest) w =
       (case os_chdir os w dir of
          Inl e \<Rightarrow> Returns 1 (w\<lparr>errno := e, clock := Suc (clock w),
                                stderr := stderr w @ perror_text os ''lsh'' e\<rparr>)
        | Inr d \<Rightarrow> Returns 1 (w\<lparr>cwd := d, clock := Suc (clock w)\<rparr>))"
  by (auto simp: lsh_cd_def fprintf_stderr_def chdir_def perror_def split: sum.splits)

text \<open>
  Claim C7. Whatever its arguments, \<open>lsh_help\<close> appends to the output stream the three
  lines of the banner, then one line for each name of \<open>builtin_str\<close> in the order of the
  table, which is cd, help, exit, then the closing line, and returns 1.
\<close>

theorem lsh_help_output:
  "lsh_help os args w =
     Returns 1 (w\<lparr>stdout := stdout w
                   @ ''Stephen Brennan's LSH'' @ [NL]
                   @ ''Type program names and arguments, and hit enter.'' @ [NL]
                   @ ''The following are built in:'' @ [NL]
                   @ concat (map (\<lambda>name. ''  '' @ name @ [NL]) builtin_str)
                   @ ''Use the man command for information on other programs.'' @ [NL]\<rparr>)
   \<and> builtin_str = [''cd'', ''help'', ''exit'']"
  by (simp add: lsh_help_eq printf_def builtin_str_def)

subsection \<open>The dispatcher and its tables\<close>

lemma index_builtin_str:
  "index builtin_str i = (if i = 0 then Some ''cd'' else if i = 1 then Some ''help''
                          else if i = 2 then Some ''exit'' else None)"
  by (auto simp: index_def builtin_str_def nth_Cons split: nat.splits)

lemma index_builtin_func:
  "index builtin_func i = (if i = 0 then Some lsh_cd else if i = 1 then Some lsh_help
                           else if i = 2 then Some lsh_exit else None)"
  by (auto simp: index_def builtin_func_def nth_Cons split: nat.splits)

lemma execute_for_3: "execute_for (Suc (Suc (Suc 0))) os args w = lsh_launch os args w"
  by (simp add: execute_for.simps [of "Suc (Suc (Suc 0))"] lsh_num_builtins_eq)

lemma execute_for_2:
  "execute_for (Suc (Suc 0)) os (a0 # rest) w =
     (if strcmp a0 ''exit'' = 0 then lsh_exit os (a0 # rest) w
      else lsh_launch os (a0 # rest) w)"
  by (simp add: execute_for.simps [of "Suc (Suc 0)"] lsh_num_builtins_eq index_builtin_str
        index_builtin_func execute_for_3)

lemma execute_for_1:
  "execute_for (Suc 0) os (a0 # rest) w =
     (if strcmp a0 ''help'' = 0 then lsh_help os (a0 # rest) w
      else execute_for (Suc (Suc 0)) os (a0 # rest) w)"
  by (simp add: execute_for.simps [of "Suc 0"] lsh_num_builtins_eq index_builtin_str
        index_builtin_func)

lemma execute_for_0:
  "execute_for 0 os (a0 # rest) w =
     (if strcmp a0 ''cd'' = 0 then lsh_cd os (a0 # rest) w
      else execute_for (Suc 0) os (a0 # rest) w)"
  by (simp add: execute_for.simps [of 0] lsh_num_builtins_eq index_builtin_str
        index_builtin_func)

lemma lsh_execute_Cons:
  "lsh_execute os (a0 # rest) w =
     (if strcmp a0 ''cd'' = 0 then lsh_cd os (a0 # rest) w
      else if strcmp a0 ''help'' = 0 then lsh_help os (a0 # rest) w
      else if strcmp a0 ''exit'' = 0 then lsh_exit os (a0 # rest) w
      else lsh_launch os (a0 # rest) w)"
  by (simp add: lsh_execute_def execute_for_0 execute_for_1 execute_for_2)

lemma NUL_builtin: "NUL \<notin> set ''cd''" "NUL \<notin> set ''help''" "NUL \<notin> set ''exit''"
  by (simp_all add: NUL_def)

lemma lsh_execute_c_string:
  "NUL \<notin> set a0 \<Longrightarrow>
   lsh_execute os (a0 # rest) w =
     (if a0 = ''cd'' then lsh_cd os (a0 # rest) w
      else if a0 = ''help'' then lsh_help os (a0 # rest) w
      else if a0 = ''exit'' then lsh_exit os (a0 # rest) w
      else lsh_launch os (a0 # rest) w)"
  by (simp only: lsh_execute_Cons strcmp_eq_0_iff NUL_builtin not_False_eq_True)

text \<open>
  Claim C1. On the empty token list \<open>lsh_execute\<close> returns 1 and leaves the world as it
  is. When the first token is the name at index \<open>i\<close> of \<open>builtin_str\<close> the result is that
  of the handler at index \<open>i\<close> of \<open>builtin_func\<close> on the whole list. When the first token
  (a C string, so without NUL) is none of the names the result is that of \<open>lsh_launch\<close> on
  the whole list.
\<close>

theorem lsh_execute_dispatch:
  "lsh_execute os [] w = Returns 1 w
   \<and> (\<forall>i < length builtin_str.
         lsh_execute os (builtin_str ! i # rest) w
           = (builtin_func ! i) os (builtin_str ! i # rest) w)
   \<and> (NUL \<notin> set a0 \<and> a0 \<notin> set builtin_str \<longrightarrow>
         lsh_execute os (a0 # rest) w = lsh_launch os (a0 # rest) w)"
proof (intro conjI allI impI)
  show "lsh_execute os [] w = Returns 1 w"
    by (simp add: lsh_execute_def)
next
  fix i assume "i < length builtin_str"
  then have "i = 0 \<or> i = 1 \<or> i = 2"
    by (auto simp: builtin_str_def)
  then show "lsh_execute os (builtin_str ! i # rest) w
               = (builtin_func ! i) os (builtin_str ! i # rest) w"
    by (auto simp: builtin_str_def builtin_func_def lsh_execute_c_string NUL_def)
next
  assume "NUL \<notin> set a0 \<and> a0 \<notin> set builtin_str"
  then show "lsh_execute os (a0 # rest) w = lsh_launch os (a0 # rest) w"
    by (simp add: lsh_execute_c_string builtin_str_def)
qed

theorem lsh_execute_dispatch_witness:
  "lsh_execute example_os [''exit'', ''now''] (example_world []) = Returns 0 (example_world [])
   \<and> lsh_execute example_os [''nosuchprogram'', ''now''] (example_world [])
       = lsh_launch example_os [''nosuchprogram'', ''now''] (example_world [])"
proof -
  note d = lsh_execute_dispatch [of example_os "example_world []" "[''now'']" "''nosuchprogram''"]
  have "2 < length builtin_str"
    by (simp add: builtin_str_def)
  with d have "lsh_execute example_os (builtin_str ! 2 # [''now'']) (example_world [])
                 = (builtin_func ! 2) example_os (builtin_str ! 2 # [''now'']) (example_world [])"
    by blast
  then have "lsh_execute example_os [''exit'', ''now''] (example_world [])
               = Returns 0 (example_world [])"
    by (simp add: builtin_str_def builtin_func_def lsh_exit_def)
  moreover have "NUL \<notin> set ''nosuchprogram'' \<and> ''nosuchprogram'' \<notin> set builtin_str"
    by (simp add: builtin_str_def NUL_def)
  with d have "lsh_execute example_os [''nosuchprogram'', ''now''] (example_world [])
                 = lsh_launch example_os [''nosuchprogram'', ''now''] (example_world [])"
    by blast
  ultimately show ?thesis by simp
qed

text \<open>
  Claim C9. Both tables have three entries and \<open>lsh_num_builtins\<close> is 3; every index
  below \<open>lsh_num_builtins\<close> is inside both tables; and when the loop of \<open>lsh_execute\<close>
  finds the first token equal to the name at index \<open>i\<close> it calls the handler at index \<open>i\<close>.
\<close>

theorem builtin_tables_agree:
  "length builtin_str = 3 \<and> length builtin_func = 3 \<and> lsh_num_builtins = 3
   \<and> (\<forall>i < lsh_num_builtins.
         index builtin_str i = Some (builtin_str ! i)
         \<and> index builtin_func i = Some (builtin_func ! i))
   \<and> (\<forall>i < lsh_num_builtins.
         strcmp a0 (builtin_str ! i) = 0 \<longrightarrow>
         execute_for i os (a0 # rest) w = (builtin_func ! i) os (a0 # rest) w)"
proof (intro conjI allI impI)
  show "length builtin_str = 3" by (simp add: builtin_str_def)
  show "length builtin_func = 3" by (simp add: builtin_func_def)
  show "lsh_num_builtins = 3" by (rule lsh_num_builtins_eq)
next
  fix i assume "i < lsh_num_builtins"
  then show "index builtin_str i = Some (builtin_str ! i)"
    by (simp add: index_def lsh_num_builtins_eq builtin_str_def)
next
  fix i assume "i < lsh_num_builtins"
  then show "index builtin_func i = Some (builtin_func ! i)"
    by (simp add: index_def lsh_num_builtins_eq builtin_func_def)
next
  fix i assume i: "i < lsh_num_builtins" and m: "strcmp a0 (builtin_str ! i) = 0"
  from i have "index builtin_str i = Some (builtin_str ! i)"
    and "index builtin_func i = Some (builtin_func ! i)"
    by (simp_all add: index_def lsh_num_builtins_eq builtin_str_def builtin_func_def)
  with i m show "execute_for i os (a0 # rest) w = (builtin_func ! i) os (a0 # rest) w"
    by (simp add: execute_for.simps [of i])
qed

theorem builtin_tables_agree_witness:
  "execute_for 1 example_os [''help''] (example_world [])
     = lsh_help example_os [''help''] (example_world [])"
proof -
  have "1 < lsh_num_builtins" by (simp add: lsh_num_builtins_eq)
  moreover have "strcmp ''help'' (builtin_str ! 1) = 0" by (simp add: builtin_str_def)
  ultimately have "execute_for 1 example_os [''help''] (example_world [])
                     = (builtin_func ! 1) example_os [''help''] (example_world [])"
    using builtin_tables_agree [of "''help''" example_os "[]" "example_world []"] by blast
  then show ?thesis by (simp add: builtin_func_def)
qed

subsection \<open>The wait loop\<close>

lemma wait_loop_stops:
  "\<forall>s\<in>set stops. \<not> WIFEXITED s \<and> \<not> WIFSIGNALED s \<Longrightarrow>
   wait_loop (stops @ rest) = wait_loop rest"
  by (induction stops) auto

lemma wait_loop_Some:
  "wait_loop statuses = Some (status, later) \<Longrightarrow>
   (WIFEXITED status \<or> WIFSIGNALED status)
   \<and> (\<exists>stops. statuses = stops @ status # later
           \<and> (\<forall>s\<in>set stops. \<not> WIFEXITED s \<and> \<not> WIFSIGNALED s))"
proof (induction statuses)
  case Nil
  then show ?case by simp
next
  case (Cons s statuses)
  show ?case
  proof (cases "\<not> WIFEXITED s \<and> \<not> WIFSIGNALED s")
    case True
    with Cons.prems have "wait_loop statuses = Some (status, later)" by simp
    from Cons.IH [OF this] obtain stops where
      "WIFEXITED status \<or> WIFSIGNALED status" "statuses = stops @ status # later"
      "\<forall>s\<in>set stops. \<not> WIFEXITED s \<and> \<not> WIFSIGNALED s" by blast
    with True have "s # statuses = (s # stops) @ status # later
        \<and> (\<forall>x\<in>set (s # stops). \<not> WIFEXITED x \<and> \<not> WIFSIGNALED x)" by simp
    with \<open>WIFEXITED status \<or> WIFSIGNALED status\<close> show ?thesis by blast
  next
    case False
    with Cons.prems have "status = s" "later = statuses" by auto
    with False have "s # statuses = [] @ status # later" by simp
    with False \<open>status = s\<close> show ?thesis by fastforce
  qed
qed

lemma stopped_not_terminal: "WIFSTOPPED s \<Longrightarrow> \<not> WIFEXITED s \<and> \<not> WIFSIGNALED s"
  by (cases s) auto

text \<open>
  Claim C4. When the wait loop ends, the status it ends on says exited or signaled, and
  every status reported before it said neither. Statuses that say stopped never end the
  loop: with nothing else reported the loop does not end; followed by the status of an
  exit the loop ends on that status, which holds the exit code; followed by the status of
  a signal the loop ends on that one.
\<close>

theorem wait_loop_ends_on_termination:
  "(wait_loop statuses = Some (status, later) \<longrightarrow>
      (WIFEXITED status \<or> WIFSIGNALED status)
      \<and> (\<exists>earlier. statuses = earlier @ status # later
             \<and> (\<forall>s\<in>set earlier. \<not> WIFEXITED s \<and> \<not> WIFSIGNALED s)))
   \<and> ((\<forall>s\<in>set stops. WIFSTOPPED s) \<longrightarrow>
        wait_loop stops = None
        \<and> wait_loop (stops @ WExited c # rest) = Some (WExited c, rest)
        \<and> WEXITSTATUS (WExited c) = Some c
        \<and> wait_loop (stops @ WSignaled g # rest) = Some (WSignaled g, rest))"
proof (intro conjI impI)
  assume "wait_loop statuses = Some (status, later)"
  from wait_loop_Some [OF this]
  show "WIFEXITED status \<or> WIFSIGNALED status"
    and "\<exists>earlier. statuses = earlier @ status # later
             \<and> (\<forall>s\<in>set earlier. \<not> WIFEXITED s \<and> \<not> WIFSIGNALED s)"
    by blast+
next
  assume "\<forall>s\<in>set stops. WIFSTOPPED s"
  then have ns: "\<forall>s\<in>set stops. \<not> WIFEXITED s \<and> \<not> WIFSIGNALED s"
    by (blast dest: stopped_not_terminal)
  from wait_loop_stops [OF ns, of "[]"] show "wait_loop stops = None" by simp
  from wait_loop_stops [OF ns] show "wait_loop (stops @ WExited c # rest) = Some (WExited c, rest)"
    by simp
  from wait_loop_stops [OF ns] show "wait_loop (stops @ WSignaled g # rest) = Some (WSignaled g, rest)"
    by simp
  show "WEXITSTATUS (WExited c) = Some c" by simp
qed

theorem wait_loop_ends_on_termination_witness:
  "wait_loop [WStopped 19, WStopped 20, WExited 3, WStopped 19] = Some (WExited 3, [WStopped 19])
   \<and> wait_loop [WStopped 19, WStopped 20] = None
   \<and> WIFEXITED (WExited 3)"
proof -
  have st: "\<forall>s\<in>set [WStopped 19, WStopped 20]. WIFSTOPPED s" by simp
  note t = wait_loop_ends_on_termination
             [of "[WStopped 19, WStopped 20, WExited 3, WStopped 19]" "WExited 3" "[WStopped 19]"
                 "[WStopped 19, WStopped 20]" 3 "[WStopped 19]"]
  from t st have a: "wait_loop ([WStopped 19, WStopped 20] @ WExited 3 # [WStopped 19])
                       = Some (WExited 3, [WStopped 19])"
    and b: "wait_loop [WStopped 19, WStopped 20] = None"
    by blast+
  from a have a': "wait_loop [WStopped 19, WStopped 20, WExited 3, WStopped 19]
                     = Some (WExited 3, [WStopped 19])" by simp
  with t have "WIFEXITED (WExited 3) \<or> WIFSIGNALED (WExited 3)" by blast
  with a' b show ?thesis by simp
qed

subsection \<open>The launcher\<close>

lemma wait_loop_terminates:
  "\<exists>s\<in>set statuses. WIFEXITED s \<or> WIFSIGNALED s \<Longrightarrow>
   \<exists>status later. wait_loop statuses = Some (status, later)"
  by (induction statuses) auto

lemma lsh_launch_fork_error:
  "os_fork os w = Inl e \<Longrightarrow>
   lsh_launch os args w =
     Returns 1 (w\<lparr>errno := e, clock := Suc (clock w),
                  stderr := stderr w @ perror_text os ''lsh'' e\<rparr>)"
  by (simp add: lsh_launch_def fork_def perror_def fprintf_stderr_def)

lemma lsh_launch_forked:
  "os_fork os w = Inr p \<Longrightarrow>
   lsh_launch os args w =
     (case lsh_launch_child os args (forked w) of
        None \<Rightarrow> UB
      | Some run \<Rightarrow>
          (case wait_loop (run_statuses run) of
             None \<Rightarrow> Hangs
           | Some (status, later) \<Rightarrow> Returns 1 (reap (child_effects run (forked w)))))"
  by (simp add: lsh_launch_def fork_def)

lemma reap_child_effects_forked:
  "reap (child_effects run (forked w)) =
     w\<lparr>clock := Suc (clock w),
       stdin := drop (run_consumed run) (stdin w),
       stdout := stdout w @ run_out run,
       stderr := stderr w @ run_err run\<rparr>"
  by (simp add: reap_def child_effects_def forked_def)

text \<open>
  Claim C3. For a token list with a first token, \<open>lsh_launch\<close> returns 1
  \<^item> when \<open>fork\<close> fails: the error is reported on the error stream and no child has been
    created (\<open>children\<close> is as before);
  \<^item> when \<open>execvp\<close> fails in the child, as for a program that does not exist: the child
    reports the error on the error stream, exits, and is reaped;
  \<^item> when the program runs and at some point a status says that it exited, with whatever
    code, or that a signal terminated it: the child is reaped.
  It never ends the process of the shell, never returns 0 and has no undefined behaviour.
  (When the child never terminates, \<open>lsh_launch\<close> does not return.)
\<close>

theorem lsh_launch_continues:
  "(os_fork os w = Inl e \<longrightarrow>
      lsh_launch os (a0 # rest) w =
        Returns 1 (w\<lparr>errno := e, clock := Suc (clock w),
                     stderr := stderr w @ ''lsh: '' @ os_strerror os e @ [NL]\<rparr>))
   \<and> (os_fork os w = Inr p \<and> os_execvp os (forked w) a0 (a0 # rest) = Inl e \<longrightarrow>
      lsh_launch os (a0 # rest) w =
        Returns 1 (w\<lparr>clock := Suc (clock w),
                     stderr := stderr w @ ''lsh: '' @ os_strerror os e @ [NL]\<rparr>))
   \<and> (os_fork os w = Inr p \<and> os_execvp os (forked w) a0 (a0 # rest) = Inr run
       \<and> (\<exists>s\<in>set (run_statuses run). WIFEXITED s \<or> WIFSIGNALED s) \<longrightarrow>
      lsh_launch os (a0 # rest) w =
        Returns 1 (w\<lparr>clock := Suc (clock w),
                     stdin := drop (run_consumed run) (stdin w),
                     stdout := stdout w @ run_out run,
                     stderr := stderr w @ run_err run\<rparr>))
   \<and> (\<forall>c w'. lsh_launch os (a0 # rest) w \<noteq> Exits c w'
              \<and> lsh_launch os (a0 # rest) w \<noteq> Returns 0 w'
              \<and> lsh_launch os (a0 # rest) w \<noteq> UB)"
proof (intro conjI impI allI)
  assume "os_fork os w = Inl e"
  then show "lsh_launch os (a0 # rest) w =
        Returns 1 (w\<lparr>errno := e, clock := Suc (clock w),
                     stderr := stderr w @ ''lsh: '' @ os_strerror os e @ [NL]\<rparr>)"
    by (simp add: lsh_launch_fork_error perror_text_def)
next
  assume "os_fork os w = Inr p \<and> os_execvp os (forked w) a0 (a0 # rest) = Inl e"
  then show "lsh_launch os (a0 # rest) w =
        Returns 1 (w\<lparr>clock := Suc (clock w),
                     stderr := stderr w @ ''lsh: '' @ os_strerror os e @ [NL]\<rparr>)"
    by (simp add: lsh_launch_forked lsh_launch_child_def reap_child_effects_forked
          perror_text_def)
next
  assume a: "os_fork os w = Inr p \<and> os_execvp os (forked w) a0 (a0 # rest) = Inr run
       \<and> (\<exists>s\<in>set (run_statuses run). WIFEXITED s \<or> WIFSIGNALED s)"
  then obtain status later where "wait_loop (run_statuses run) = Some (status, later)"
    using wait_loop_terminates by blast
  with a show "lsh_launch os (a0 # rest) w =
        Returns 1 (w\<lparr>clock := Suc (clock w),
                     stdin := drop (run_consumed run) (stdin w),
                     stdout := stdout w @ run_out run,
                     stderr := stderr w @ run_err run\<rparr>)"
    by (simp add: lsh_launch_forked lsh_launch_child_def reap_child_effects_forked)
next
  fix c w'
  show "lsh_launch os (a0 # rest) w \<noteq> Exits c w'"
    by (cases "os_fork os w")
       (auto simp: lsh_launch_fork_error lsh_launch_forked lsh_launch_child_def
             split: option.splits)
  show "lsh_launch os (a0 # rest) w \<noteq> Returns 0 w'"
    by (cases "os_fork os w")
       (auto simp: lsh_launch_fork_error lsh_launch_forked lsh_launch_child_def
             split: option.splits)
  show "lsh_launch os (a0 # rest) w \<noteq> UB"
    by (cases "os_fork os w")
       (auto simp: lsh_launch_fork_error lsh_launch_forked lsh_launch_child_def
             split: option.splits)
qed

theorem lsh_launch_continues_witness:
  "lsh_launch example_os [''nosuchprogram''] (example_world []) =
     Returns 1 ((example_world [])\<lparr>clock := 1,
                  stderr := ''lsh: No such file or directory'' @ [NL]\<rparr>)
   \<and> lsh_launch example_os [''true''] (example_world []) =
     Returns 1 ((example_world [])\<lparr>clock := 1\<rparr>)
   \<and> lsh_launch example_os [''true''] ((example_world [])\<lparr>clock := 100\<rparr>) =
     Returns 1 ((example_world [])\<lparr>errno := 11, clock := 101,
                  stderr := ''lsh: Resource temporarily unavailable'' @ [NL]\<rparr>)"
proof -
  let ?w = "example_world []"
  let ?run = "\<lparr>run_consumed = 0, run_out = [], run_err = [],
               run_statuses = [WStopped 19, WExited 0]\<rparr>"
  have f: "os_fork example_os ?w = Inr 41"
    by (simp add: example_os_def example_world_def)
  have x: "os_execvp example_os (forked ?w) ''nosuchprogram'' [''nosuchprogram''] = Inl 2"
    by (simp add: example_os_def)
  have y: "os_execvp example_os (forked ?w) ''true'' [''true''] = Inr ?run"
    by (simp add: example_os_def)
  have z: "\<exists>s\<in>set (run_statuses ?run). WIFEXITED s \<or> WIFSIGNALED s"
    by simp
  have g: "os_fork example_os (?w\<lparr>clock := 100\<rparr>) = Inl 11"
    by (simp add: example_os_def example_world_def)
  from f x lsh_launch_continues [of example_os ?w 2 "''nosuchprogram''" "[]" 41]
  have 1: "lsh_launch example_os [''nosuchprogram''] ?w =
        Returns 1 (?w\<lparr>clock := Suc (clock ?w),
                     stderr := stderr ?w @ ''lsh: '' @ os_strerror example_os 2 @ [NL]\<rparr>)"
    by blast
  from f y z lsh_launch_continues [of example_os ?w _ "''true''" "[]" 41 ?run]
  have 2: "lsh_launch example_os [''true''] ?w =
        Returns 1 (?w\<lparr>clock := Suc (clock ?w),
                     stdin := drop (run_consumed ?run) (stdin ?w),
                     stdout := stdout ?w @ run_out ?run,
                     stderr := stderr ?w @ run_err ?run\<rparr>)"
    by blast
  from g lsh_launch_continues [of example_os "?w\<lparr>clock := 100\<rparr>" 11 "''true''" "[]"]
  have 3: "lsh_launch example_os [''true''] (?w\<lparr>clock := 100\<rparr>) =
        Returns 1 (?w\<lparr>clock := 100, errno := 11, clock := Suc (clock (?w\<lparr>clock := 100\<rparr>)),
                     stderr := stderr (?w\<lparr>clock := 100\<rparr>) @ ''lsh: '' @ os_strerror example_os 11 @ [NL]\<rparr>)"
    by blast
  from 1 2 3 show ?thesis
    by (simp add: example_os_def example_world_def)
qed

subsection \<open>The builtin exit and the loop\<close>

lemma read_while_unfold:
  "read_while os bufsize buffer w =
     (case stdin w of
        [] \<Rightarrow> Exits EXIT_SUCCESS w
      | c # rest \<Rightarrow>
          if \<not> length buffer < bufsize then UB
          else if c = NL then Returns (c_str buffer) (w\<lparr>stdin := rest\<rparr>)
          else if Suc (length buffer) < bufsize then
            read_while os bufsize (buffer @ [c]) (w\<lparr>stdin := rest\<rparr>)
          else if bufsize + LSH_RL_BUFSIZE > INT_MAX then UB
          else if os_alloc os (w\<lparr>stdin := rest\<rparr>) (bufsize + LSH_RL_BUFSIZE) then
            read_while os (bufsize + LSH_RL_BUFSIZE) (buffer @ [c])
              (w\<lparr>stdin := rest, clock := Suc (clock w)\<rparr>)
          else Exits EXIT_FAILURE
                 (fprintf_stderr allocation_error
                    (w\<lparr>stdin := rest, clock := Suc (clock w)\<rparr>)))"
  by (cases "stdin w") (simp_all add: read_while_eof read_while_char)

lemma lsh_execute_exit: "lsh_execute os (''exit'' # rest) w = Returns 0 w"
  by (simp add: lsh_execute_Cons lsh_exit_def)

text \<open>
  Claim C8. Whatever its arguments and the world, \<open>lsh_exit\<close> returns 0, and so does
  \<open>lsh_execute\<close> on a token list that starts with exit. When the line read splits into
  such a list, the loop stops after this command and \<open>main\<close> ends the process with
  \<^verbatim>\<open>EXIT_SUCCESS\<close>.
\<close>

theorem lsh_exit_terminates:
  "lsh_exit os args w = Returns 0 w
   \<and> lsh_execute os (''exit'' # rest) w = Returns 0 w
   \<and> (lsh_read_line os (printf ''> '' w) = Returns line w1
       \<and> lsh_split_line os line w1 = Returns (''exit'' # rest) w2 \<longrightarrow>
       lsh_loop os w = Returns () w2 \<and> main os w = Exits EXIT_SUCCESS w2)"
  by (simp add: lsh_exit_def lsh_execute_exit lsh_loop.simps [of os w] main_def)

theorem lsh_exit_terminates_witness:
  "main example_os (example_world (''exit 3'' @ [NL] @ ''ls'' @ [NL]))
     = Exits EXIT_SUCCESS
         \<lparr>stdin = ''ls'' @ [NL], stdout = ''> '', stderr = [], cwd = ''/home'',
          errno = 0, children = 0, clock = 2\<rparr>"
proof -
  let ?w = "example_world (''exit 3'' @ [NL] @ ''ls'' @ [NL])"
  let ?w1 = "\<lparr>stdin = ''ls'' @ [NL], stdout = ''> '', stderr = [], cwd = ''/home'',
              errno = 0, children = 0, clock = 1\<rparr>"
  have r: "lsh_read_line example_os (printf ''> '' ?w) = Returns ''exit 3'' ?w1"
    by (simp add: lsh_read_line_def malloc_def example_os_def example_world_def printf_def
          read_while_unfold LSH_RL_BUFSIZE_def sizeof_char_def NL_def NUL_def c_str_def)
  have s: "lsh_split_line example_os ''exit 3'' ?w1
             = Returns [''exit'', ''3''] (?w1\<lparr>clock := 2\<rparr>)"
    by (simp add: lsh_split_line_def malloc_def example_os_def split_while_Some split_while_None
          strtok_def strspn_def strcspn_def LSH_TOK_DELIM_def LSH_TOK_BUFSIZE_def Let_def)
  note t = lsh_exit_terminates [of example_os "[]" ?w "[''3'']" "''exit 3''" ?w1
                                  "?w1\<lparr>clock := 2\<rparr>"]
  from t [THEN conjunct2, THEN conjunct2, THEN mp, OF conjI [OF r s], THEN conjunct2]
  show ?thesis by simp
qed




subsection \<open>The tokenizer\<close>

text \<open>
  A second definition, which follows the words of the specification and not the code:
  splitting on maximal runs of delimiters is cutting the line at every delimiter and
  dropping the empty pieces.
\<close>

fun pieces :: "string \<Rightarrow> string \<Rightarrow> string list" where
  "pieces delim [] = [[]]"
| "pieces delim (c # cs) =
     (if c \<in> set delim then [] # pieces delim cs
      else (case pieces delim cs of
              [] \<Rightarrow> [[c]]
            | p # ps \<Rightarrow> (c # p) # ps))"

definition split_on_delimiters :: "string \<Rightarrow> string \<Rightarrow> string list" where
  "split_on_delimiters delim line = filter (\<lambda>p. p \<noteq> []) (pieces delim line)"

lemma pieces_not_Nil: "pieces delim s \<noteq> []"
  by (induction s) (auto split: list.splits)

lemma hd_pieces: "hd (pieces delim s) = takeWhile (\<lambda>c. c \<notin> set delim) s"
  by (induction s) (auto split: list.splits simp: pieces_not_Nil)

lemma pieces_Cons_token:
  "c \<notin> set delim \<Longrightarrow>
   pieces delim (c # cs) = (c # hd (pieces delim cs)) # tl (pieces delim cs)"
  by (cases "pieces delim cs") (simp_all add: pieces_not_Nil)

lemma tl_pieces:
  "tl (pieces delim s) =
     (case dropWhile (\<lambda>c. c \<notin> set delim) s of [] \<Rightarrow> [] | d # r \<Rightarrow> pieces delim r)"
proof (induction s)
  case Nil
  show ?case by simp
next
  case (Cons c cs)
  show ?case
  proof (cases "c \<in> set delim")
    case True
    then show ?thesis by simp
  next
    case False
    then show ?thesis
      using Cons.IH by (simp add: pieces_Cons_token del: pieces.simps)
  qed
qed

lemma split_dropWhile:
  "split_on_delimiters delim (dropWhile (\<lambda>c. c \<in> set delim) s) = split_on_delimiters delim s"
  by (induction s) (auto simp: split_on_delimiters_def)

lemma split_Nil: "split_on_delimiters delim [] = []"
  by (simp add: split_on_delimiters_def)

lemma split_token:
  assumes "s \<noteq> []" "hd s \<notin> set delim"
  shows "split_on_delimiters delim s =
           takeWhile (\<lambda>c. c \<notin> set delim) s
           # (case dropWhile (\<lambda>c. c \<notin> set delim) s of
                [] \<Rightarrow> [] | d # r \<Rightarrow> split_on_delimiters delim r)"
proof -
  let ?e = "dropWhile (\<lambda>c. c \<notin> set delim) s"
  have "pieces delim s = hd (pieces delim s) # tl (pieces delim s)"
    by (simp add: pieces_not_Nil)
  then have p: "pieces delim s =
      takeWhile (\<lambda>c. c \<notin> set delim) s
      # (case ?e of [] \<Rightarrow> [] | d # r \<Rightarrow> pieces delim r)"
    by (simp add: hd_pieces tl_pieces)
  have t: "takeWhile (\<lambda>c. c \<notin> set delim) s \<noteq> []"
    using assms by (cases s) auto
  have c: "filter (\<lambda>p. p \<noteq> []) (case e of [] \<Rightarrow> [] | d # r \<Rightarrow> pieces delim r)
             = (case e of [] \<Rightarrow> [] | d # r \<Rightarrow> split_on_delimiters delim r)" for e
    by (cases e) (simp_all add: split_on_delimiters_def)
  have "split_on_delimiters delim s = filter (\<lambda>p. p \<noteq> []) (pieces delim s)"
    by (simp add: split_on_delimiters_def)
  also have "\<dots> = takeWhile (\<lambda>c. c \<notin> set delim) s
                   # filter (\<lambda>p. p \<noteq> []) (case ?e of [] \<Rightarrow> [] | d # r \<Rightarrow> pieces delim r)"
    using t by (subst p) simp
  finally show ?thesis by (simp only: c)
qed

lemma strtok_eq:
  "strtok s delim =
     (if dropWhile (\<lambda>c. c \<in> set delim) s = [] then (None, [])
      else (Some (takeWhile (\<lambda>c. c \<notin> set delim) (dropWhile (\<lambda>c. c \<in> set delim) s)),
            case dropWhile (\<lambda>c. c \<notin> set delim) (dropWhile (\<lambda>c. c \<in> set delim) s) of
              [] \<Rightarrow> [] | d # r \<Rightarrow> r))"
proof -
  let ?s1 = "dropWhile (\<lambda>c. c \<in> set delim) s"
  let ?e = "dropWhile (\<lambda>c. c \<notin> set delim) ?s1"
  have s1: "drop (strspn s delim) s = ?s1"
    unfolding strspn_def by (rule dropWhile_eq_drop [symmetric])
  have t: "take (strcspn ?s1 delim) ?s1 = takeWhile (\<lambda>c. c \<notin> set delim) ?s1"
    unfolding strcspn_def by (rule takeWhile_eq_take [symmetric])
  have e: "drop (strcspn ?s1 delim) ?s1 = ?e"
    unfolding strcspn_def by (rule dropWhile_eq_drop [symmetric])
  have c: "(if x = [] then x else tl x) = (case x of [] \<Rightarrow> [] | d # r \<Rightarrow> r)" for x :: string
    by (cases x) simp_all
  have u: "strtok s delim =
             (if ?s1 = [] then (None, ?s1)
              else (Some (takeWhile (\<lambda>c. c \<notin> set delim) ?s1),
                    case ?e of [] \<Rightarrow> [] | d # r \<Rightarrow> r))"
    unfolding strtok_def Let_def s1 t e c [of ?e] by (rule refl)
  show ?thesis
  proof (cases "?s1 = []")
    case True
    show ?thesis unfolding u if_P [OF True] unfolding True by (rule refl)
  next
    case False
    show ?thesis unfolding u if_not_P [OF False] by (rule refl)
  qed
qed

lemma strtok_None:
  assumes "strtok s delim = (None, save)"
  shows "split_on_delimiters delim s = []"
proof -
  from assms have "dropWhile (\<lambda>c. c \<in> set delim) s = []"
    by (simp add: strtok_eq split: if_splits)
  with split_dropWhile [of delim s] show ?thesis
    by (simp add: split_Nil)
qed

lemma split_rest:
  "(case e of [] \<Rightarrow> [] | d # r \<Rightarrow> split_on_delimiters delim r)
     = split_on_delimiters delim (case e of [] \<Rightarrow> [] | d # r \<Rightarrow> r)"
  by (cases e) (simp_all add: split_Nil)

lemma strtok_Some:
  assumes "strtok s delim = (Some t, save)"
  shows "split_on_delimiters delim s = t # split_on_delimiters delim save"
proof -
  let ?s1 = "dropWhile (\<lambda>c. c \<in> set delim) s"
  let ?e = "dropWhile (\<lambda>c. c \<notin> set delim) ?s1"
  from assms have ne: "?s1 \<noteq> []"
    and t: "t = takeWhile (\<lambda>c. c \<notin> set delim) ?s1"
    and sv: "save = (case ?e of [] \<Rightarrow> [] | d # r \<Rightarrow> r)"
    by (simp_all add: strtok_eq split: if_splits)
  from ne have h: "hd ?s1 \<notin> set delim"
    using hd_dropWhile [of "\<lambda>c. c \<in> set delim" s] by simp
  have "split_on_delimiters delim s = split_on_delimiters delim ?s1"
    by (simp only: split_dropWhile)
  also have "\<dots> = t # (case ?e of [] \<Rightarrow> [] | d # r \<Rightarrow> split_on_delimiters delim r)"
    unfolding t by (rule split_token [OF ne h])
  also have "(case ?e of [] \<Rightarrow> [] | d # r \<Rightarrow> split_on_delimiters delim r)
               = split_on_delimiters delim save"
    unfolding sv by (rule split_rest)
  finally show ?thesis .
qed

lemma split_while_correct:
  assumes alloc: "\<forall>w n. os_alloc os w n"
  shows "length tokens < bufsize \<Longrightarrow>
         length tokens + length save + (case token of None \<Rightarrow> 0 | Some t \<Rightarrow> 1)
           + LSH_TOK_BUFSIZE \<le> INT_MAX \<Longrightarrow>
         \<exists>w'. split_while os bufsize tokens token save w =
                Returns (tokens @ (case token of
                                     None \<Rightarrow> []
                                   | Some t \<Rightarrow> t # split_on_delimiters LSH_TOK_DELIM save)) w'
              \<and> w' = w\<lparr>clock := clock w'\<rparr>"
proof (induction "length save" arbitrary: save token tokens bufsize w rule: less_induct)
  case less
  show ?case
  proof (cases token)
    case None
    with less.prems show ?thesis by (simp add: split_while_None)
  next
    case (Some t)
    obtain token1 save1 where st: "strtok save LSH_TOK_DELIM = (token1, save1)"
      by (cases "strtok save LSH_TOK_DELIM")
    let ?tokens1 = "tokens @ [t]"
    have tail: "\<exists>w'. split_while os b tokens1 token1 save1 w0 =
                   Returns (tokens @ t # split_on_delimiters LSH_TOK_DELIM save) w'
                 \<and> w' = w0\<lparr>clock := clock w'\<rparr>"
      if b: "length tokens1 < b" and t1: "tokens1 = ?tokens1" for b w0 tokens1
    proof (cases token1)
      case None
      with st have "split_on_delimiters LSH_TOK_DELIM save = []"
        by (simp add: strtok_None)
      with None b t1 show ?thesis by (simp add: split_while_None)
    next
      case (Some t1')
      with st have sh: "length save1 < length save"
        and sp: "split_on_delimiters LSH_TOK_DELIM save
                   = t1' # split_on_delimiters LSH_TOK_DELIM save1"
        by (simp_all add: strtok_shorter strtok_Some)
      have "length tokens1 + length save1 + (case token1 of None \<Rightarrow> 0 | Some t \<Rightarrow> 1)
              + LSH_TOK_BUFSIZE \<le> INT_MAX"
        using less.prems(2) sh Some \<open>token = Some t\<close> t1 by simp
      from less.hyps [OF sh b this, of w0] Some sp t1 show ?thesis by simp
    qed
    show ?thesis
    proof (cases "Suc (length tokens) < bufsize")
      case True
      with less.prems Some st tail [of ?tokens1 bufsize w] show ?thesis
        by (simp add: split_while_Some)
    next
      case False
      with less.prems(1) have eq: "bufsize = Suc (length tokens)" by simp
      with less.prems(2) Some have nov: "\<not> bufsize + LSH_TOK_BUFSIZE > INT_MAX" by simp
      have "length ?tokens1 < bufsize + LSH_TOK_BUFSIZE"
        using eq by (simp add: LSH_TOK_BUFSIZE_def)
      from tail [OF this refl, of "w\<lparr>clock := Suc (clock w)\<rparr>"]
      obtain w' where
        "split_while os (bufsize + LSH_TOK_BUFSIZE) ?tokens1 token1 save1
           (w\<lparr>clock := Suc (clock w)\<rparr>)
         = Returns (tokens @ t # split_on_delimiters LSH_TOK_DELIM save) w'"
        "w' = w\<lparr>clock := Suc (clock w), clock := clock w'\<rparr>"
        by auto
      with False less.prems(1) nov Some st alloc show ?thesis
        by (simp add: split_while_Some)
    qed
  qed
qed

lemma pieces_no_delimiter: "p \<in> set (pieces delim s) \<Longrightarrow> set p \<inter> set delim = {}"
proof (induction s arbitrary: p)
  case Nil
  then show ?case by simp
next
  case (Cons c cs)
  show ?case
  proof (cases "c \<in> set delim")
    case True
    with Cons show ?thesis by auto
  next
    case False
    have "hd (pieces delim cs) \<in> set (pieces delim cs)"
      by (simp add: pieces_not_Nil)
    then have h: "set (hd (pieces delim cs)) \<inter> set delim = {}"
      by (rule Cons.IH)
    have "set (tl (pieces delim cs)) \<subseteq> set (pieces delim cs)"
      by (cases "pieces delim cs") auto
    then have t: "\<forall>q\<in>set (tl (pieces delim cs)). set q \<inter> set delim = {}"
      using Cons.IH by blast
    from Cons.prems False have "p = c # hd (pieces delim cs) \<or> p \<in> set (tl (pieces delim cs))"
      by (simp add: pieces_Cons_token del: pieces.simps)
    with h t False show ?thesis by auto
  qed
qed

lemma pieces_all_delimiters:
  "set s \<subseteq> set delim \<Longrightarrow> filter (\<lambda>p. p \<noteq> []) (pieces delim s) = []"
  by (induction s) auto

lemma concat_pieces: "concat (pieces delim s) = filter (\<lambda>c. c \<notin> set delim) s"
proof (induction s)
  case Nil
  show ?case by simp
next
  case (Cons c cs)
  have "concat (pieces delim cs) = hd (pieces delim cs) @ concat (tl (pieces delim cs))"
    by (cases "pieces delim cs") (simp_all add: pieces_not_Nil)
  with Cons show ?case
  proof (cases "c \<in> set delim")
    case True
    with Cons show ?thesis by simp
  next
    case False
    with Cons \<open>concat (pieces delim cs) = hd (pieces delim cs) @ concat (tl (pieces delim cs))\<close>
    show ?thesis by (simp add: pieces_Cons_token del: pieces.simps(2))
  qed
qed

lemma concat_nonempty: "concat (filter (\<lambda>p. p \<noteq> []) xs) = concat xs"
  by (induction xs) auto

lemma lsh_split_line_correct:
  assumes "\<forall>w n. os_alloc os w n" and "length line + LSH_TOK_BUFSIZE \<le> INT_MAX"
  shows "\<exists>w'. lsh_split_line os line w = Returns (split_on_delimiters LSH_TOK_DELIM line) w'
              \<and> w' = w\<lparr>clock := clock w'\<rparr>"
proof -
  obtain token save where st: "strtok line LSH_TOK_DELIM = (token, save)"
    by (cases "strtok line LSH_TOK_DELIM")
  have sp: "split_on_delimiters LSH_TOK_DELIM line =
              (case token of None \<Rightarrow> [] | Some t \<Rightarrow> t # split_on_delimiters LSH_TOK_DELIM save)"
    using st by (cases token) (simp_all add: strtok_None strtok_Some)
  have "length save + (case token of None \<Rightarrow> 0 | Some t \<Rightarrow> 1) \<le> length line"
    using st by (cases token) (auto dest: strtok_shorter strtok_not_longer)
  with assms(2) have b: "length ([]::string list) + length save
      + (case token of None \<Rightarrow> 0 | Some t \<Rightarrow> 1) + LSH_TOK_BUFSIZE \<le> INT_MAX"
    by simp
  have "length ([]::string list) < LSH_TOK_BUFSIZE"
    by (simp add: LSH_TOK_BUFSIZE_def)
  from split_while_correct [OF assms(1) this b, of "w\<lparr>clock := Suc (clock w)\<rparr>"]
  obtain w' where
    "split_while os LSH_TOK_BUFSIZE [] token save (w\<lparr>clock := Suc (clock w)\<rparr>)
       = Returns (split_on_delimiters LSH_TOK_DELIM line) w'"
    "w' = w\<lparr>clock := Suc (clock w), clock := clock w'\<rparr>"
    using sp by auto
  with assms(1) st show ?thesis
    by (simp add: lsh_split_line_def malloc_def)
qed

text \<open>
  Claim C2. When no allocation is refused and the line is short enough for the counters of
  type \<^verbatim>\<open>int\<close> not to overflow, \<open>lsh_split_line\<close> returns exactly the pieces between
  maximal runs of the characters of \<open>LSH_TOK_DELIM\<close> (space, tab, carriage return, newline,
  bell), and the world changes in its \<open>clock\<close> only. A line of delimiters only, the empty
  line among them, gives no token. Every token is non-empty and free of delimiters, and
  the tokens together are the characters of the line that are not delimiters, in order.
  The line of two spaces, ls, three spaces, -la, two spaces gives ls and -la.
\<close>

theorem lsh_split_line_tokens:
  assumes "\<forall>w n. os_alloc os w n" and "length line + LSH_TOK_BUFSIZE \<le> INT_MAX"
  shows "(\<exists>w'. lsh_split_line os line w = Returns (split_on_delimiters LSH_TOK_DELIM line) w'
               \<and> w' = w\<lparr>clock := clock w'\<rparr>)
         \<and> (set line \<subseteq> set LSH_TOK_DELIM \<longrightarrow>
               (\<exists>w'. lsh_split_line os line w = Returns [] w'))
         \<and> (\<forall>tokens w'. lsh_split_line os line w = Returns tokens w' \<longrightarrow>
               (\<forall>t\<in>set tokens. t \<noteq> [] \<and> set t \<inter> set LSH_TOK_DELIM = {})
               \<and> concat tokens = filter (\<lambda>c. c \<notin> set LSH_TOK_DELIM) line)
         \<and> lsh_split_line os ''  ls   -la  '' w
               = Returns [''ls'', ''-la''] (w\<lparr>clock := Suc (clock w)\<rparr>)"
proof (intro conjI allI impI)
  from lsh_split_line_correct [OF assms]
  show c: "\<exists>w'. lsh_split_line os line w = Returns (split_on_delimiters LSH_TOK_DELIM line) w'
               \<and> w' = w\<lparr>clock := clock w'\<rparr>" .
  {
    assume "set line \<subseteq> set LSH_TOK_DELIM"
    then have "split_on_delimiters LSH_TOK_DELIM line = []"
      by (simp add: split_on_delimiters_def pieces_all_delimiters)
    with c show "\<exists>w'. lsh_split_line os line w = Returns [] w'" by auto
  }
  {
    fix tokens w' assume "lsh_split_line os line w = Returns tokens w'"
    with c have t: "tokens = split_on_delimiters LSH_TOK_DELIM line" by auto
    show "\<forall>t\<in>set tokens. t \<noteq> [] \<and> set t \<inter> set LSH_TOK_DELIM = {}"
      unfolding t split_on_delimiters_def by (auto dest: pieces_no_delimiter)
    show "concat tokens = filter (\<lambda>c. c \<notin> set LSH_TOK_DELIM) line"
      unfolding t split_on_delimiters_def by (simp only: concat_nonempty concat_pieces)
  }
  from assms(1)
  show "lsh_split_line os ''  ls   -la  '' w
               = Returns [''ls'', ''-la''] (w\<lparr>clock := Suc (clock w)\<rparr>)"
    by (simp add: lsh_split_line_def malloc_def split_while_Some split_while_None
          strtok_def strspn_def strcspn_def LSH_TOK_DELIM_def LSH_TOK_BUFSIZE_def Let_def)
qed

theorem lsh_split_line_tokens_witness:
  "lsh_split_line example_os (''cd'' @ [CHR 0x09] @ ''/tmp'' @ [CHR 0x0D]) (example_world [])
     = Returns [''cd'', ''/tmp''] ((example_world [])\<lparr>clock := 1\<rparr>)
   \<and> lsh_split_line example_os [CHR 0x20, CHR 0x07, CHR 0x0A] (example_world [])
     = Returns [] ((example_world [])\<lparr>clock := 1\<rparr>)"
proof -
  let ?w = "example_world []"
  let ?l1 = "''cd'' @ [CHR 0x09] @ ''/tmp'' @ [CHR 0x0D]"
  let ?l2 = "[CHR 0x20, CHR 0x07, CHR 0x0A]"
  have a: "\<forall>w n. os_alloc example_os w n"
    by (simp add: example_os_def)
  have b1: "length ?l1 + LSH_TOK_BUFSIZE \<le> INT_MAX"
    by (simp add: LSH_TOK_BUFSIZE_def INT_MAX_def)
  have b2: "length ?l2 + LSH_TOK_BUFSIZE \<le> INT_MAX"
    by (simp add: LSH_TOK_BUFSIZE_def INT_MAX_def)
  have s1: "split_on_delimiters LSH_TOK_DELIM ?l1 = [''cd'', ''/tmp'']"
    by (simp add: split_on_delimiters_def LSH_TOK_DELIM_def)
  have s2: "split_on_delimiters LSH_TOK_DELIM ?l2 = []"
    by (simp add: split_on_delimiters_def LSH_TOK_DELIM_def)
  from lsh_split_line_tokens [OF a b1, of ?w, THEN conjunct1] s1
  obtain w1 where r1: "lsh_split_line example_os ?l1 ?w = Returns [''cd'', ''/tmp''] w1"
    by auto
  from lsh_split_line_tokens [OF a b2, of ?w, THEN conjunct1] s2
  obtain w2 where r2: "lsh_split_line example_os ?l2 ?w = Returns [] w2"
    by auto
  have "lsh_split_line example_os ?l1 ?w = Returns [''cd'', ''/tmp''] (?w\<lparr>clock := 1\<rparr>)"
    by (simp add: lsh_split_line_def malloc_def split_while_Some split_while_None example_os_def
          example_world_def
          strtok_def strspn_def strcspn_def LSH_TOK_DELIM_def LSH_TOK_BUFSIZE_def Let_def)
  moreover
  have "lsh_split_line example_os ?l2 ?w = Returns [] (?w\<lparr>clock := 1\<rparr>)"
    by (simp add: lsh_split_line_def malloc_def split_while_Some split_while_None example_os_def
          example_world_def
          strtok_def strspn_def strcspn_def LSH_TOK_DELIM_def LSH_TOK_BUFSIZE_def Let_def)
  ultimately show ?thesis using r1 r2 by simp
qed

subsection \<open>The exit status\<close>

text \<open>
  The process ends with \<open>c\<close> in the world \<open>w'\<close> on the path of a failed allocation: the
  status is \<^verbatim>\<open>EXIT_FAILURE\<close>, and \<open>w'\<close> is the world in which a request was refused, with
  the message on the error stream.
\<close>

definition allocation_failure :: "os \<Rightarrow> int \<Rightarrow> world \<Rightarrow> bool" where
  "allocation_failure os c w' =
     (c = EXIT_FAILURE
      \<and> (\<exists>w0 n. \<not> os_alloc os w0 n
             \<and> w' = fprintf_stderr allocation_error (w0\<lparr>clock := Suc (clock w0)\<rparr>)))"

lemma allocation_failureI:
  "\<not> os_alloc os w0 n \<Longrightarrow>
   allocation_failure os EXIT_FAILURE
     (fprintf_stderr allocation_error (w0\<lparr>clock := Suc (clock w0)\<rparr>))"
  unfolding allocation_failure_def by blast

lemma read_while_Exits:
  "stdin w = inp \<Longrightarrow> read_while os bufsize buffer w = Exits c w' \<Longrightarrow>
   c = EXIT_SUCCESS \<or> allocation_failure os c w'"
proof (induction inp arbitrary: w bufsize buffer)
  case Nil
  then show ?case by (simp add: read_while_eof)
next
  case (Cons a rest)
  let ?w1 = "w\<lparr>stdin := rest\<rparr>"
  from Cons.prems(1) have u: "read_while os bufsize buffer w =
     (if \<not> length buffer < bufsize then UB
      else if a = NL then Returns (c_str buffer) ?w1
      else if Suc (length buffer) < bufsize then
        read_while os bufsize (buffer @ [a]) ?w1
      else if bufsize + LSH_RL_BUFSIZE > INT_MAX then UB
      else if os_alloc os ?w1 (bufsize + LSH_RL_BUFSIZE) then
        read_while os (bufsize + LSH_RL_BUFSIZE) (buffer @ [a])
          (w\<lparr>stdin := rest, clock := Suc (clock w)\<rparr>)
      else Exits EXIT_FAILURE
             (fprintf_stderr allocation_error (w\<lparr>stdin := rest, clock := Suc (clock w)\<rparr>)))"
    by (rule read_while_char)
  have i1: "read_while os b buf ?w1 = Exits c w' \<Longrightarrow>
            c = EXIT_SUCCESS \<or> allocation_failure os c w'" for b buf
    by (rule Cons.IH [of ?w1]) simp_all
  have i2: "read_while os b buf (w\<lparr>stdin := rest, clock := Suc (clock w)\<rparr>) = Exits c w' \<Longrightarrow>
            c = EXIT_SUCCESS \<or> allocation_failure os c w'" for b buf
    by (rule Cons.IH [of "w\<lparr>stdin := rest, clock := Suc (clock w)\<rparr>"]) simp_all
  have f: "\<not> os_alloc os ?w1 n \<Longrightarrow>
           allocation_failure os EXIT_FAILURE
             (fprintf_stderr allocation_error (w\<lparr>stdin := rest, clock := Suc (clock w)\<rparr>))" for n
    using allocation_failureI [of os ?w1 n] by simp
  from Cons.prems(2) show ?case
    unfolding u by (auto split: if_splits dest: i1 i2 f)
qed

lemma lsh_read_line_Exits:
  "lsh_read_line os w = Exits c w' \<Longrightarrow> c = EXIT_SUCCESS \<or> allocation_failure os c w'"
  by (auto simp: lsh_read_line_def malloc_def split: bool.splits
           dest: read_while_Exits [OF refl] allocation_failureI)

lemma split_while_Exits:
  "split_while os bufsize tokens token save w = Exits c w' \<Longrightarrow> allocation_failure os c w'"
proof (induction "length save" arbitrary: save token tokens bufsize w rule: less_induct)
  case less
  show ?case
  proof (cases token)
    case None
    with less.prems show ?thesis by (simp add: split_while_None split: if_splits)
  next
    case (Some t)
    obtain token1 save1 where st: "strtok save LSH_TOK_DELIM = (token1, save1)"
      by (cases "strtok save LSH_TOK_DELIM")
    have tail: "allocation_failure os c w'"
      if "split_while os b (tokens @ [t]) token1 save1 w0 = Exits c w'" for b w0
    proof (cases token1)
      case None
      with that show ?thesis by (simp add: split_while_None split: if_splits)
    next
      case (Some t1)
      with st have "length save1 < length save" by (simp add: strtok_shorter)
      from less.hyps [OF this that] show ?thesis .
    qed
    from less.prems Some st show ?thesis
      by (auto simp: split_while_Some split: if_splits dest: tail allocation_failureI)
  qed
qed

lemma lsh_split_line_Exits:
  "lsh_split_line os line w = Exits c w' \<Longrightarrow> allocation_failure os c w'"
  by (auto simp: lsh_split_line_def malloc_def split: bool.splits prod.splits
           dest: split_while_Exits allocation_failureI)

lemma lsh_cd_returns: "lsh_cd os (a0 # rest) w = r \<Longrightarrow> \<exists>w'. r = Returns 1 w'"
  by (cases rest) (auto simp: lsh_cd_def split: prod.splits)

lemma lsh_launch_returns:
  "lsh_launch os (a0 # rest) w = r \<Longrightarrow> (\<exists>w'. r = Returns 1 w') \<or> r = Hangs"
  by (cases "os_fork os w")
     (auto simp: lsh_launch_fork_error lsh_launch_forked lsh_launch_child_def
           split: option.splits)

lemma lsh_execute_not_Exits: "lsh_execute os args w \<noteq> Exits c w'"
proof (cases args)
  case Nil
  then show ?thesis by (simp add: lsh_execute_def)
next
  case (Cons a0 rest)
  then show ?thesis
    using lsh_cd_returns [of os a0 rest w] lsh_launch_returns [of os a0 rest w]
    by (auto simp: lsh_execute_Cons lsh_help_eq lsh_exit_def)
qed

lemma lsh_execute_terminate:
  "lsh_execute os args w = Returns 0 w' \<Longrightarrow> \<exists>a0 rest. args = a0 # rest \<and> strcmp a0 ''exit'' = 0"
proof (cases args)
  case Nil
  assume "lsh_execute os args w = Returns 0 w'"
  with Nil show ?thesis by (simp add: lsh_execute_def)
next
  case (Cons a0 rest)
  assume "lsh_execute os args w = Returns 0 w'"
  with Cons show ?thesis
    using lsh_cd_returns [of os a0 rest w] lsh_launch_returns [of os a0 rest w]
    by (auto simp: lsh_execute_Cons lsh_help_eq lsh_exit_def split: if_splits)
qed

lemma lsh_loop_Exits:
  "lsh_loop os w = Exits c w' \<Longrightarrow> c = EXIT_SUCCESS \<or> allocation_failure os c w'"
proof (induction os w rule: lsh_loop.induct)
  case (1 os w)
  from "1.prems" show ?case
    by (auto simp: lsh_loop.simps [of os w] lsh_execute_not_Exits
             split: result.splits if_splits
             dest: lsh_read_line_Exits lsh_split_line_Exits "1.IH")
qed

lemma main_eof:
  "stdin w = [] \<Longrightarrow> os_alloc os (printf ''> '' w) (sizeof_char * LSH_RL_BUFSIZE) \<Longrightarrow>
   main os w = Exits EXIT_SUCCESS ((printf ''> '' w)\<lparr>clock := Suc (clock w)\<rparr>)"
  by (simp add: main_def lsh_loop.simps [of os w] lsh_read_line_def malloc_def read_while_eof
        printf_def)

lemma main_first_allocation_fails:
  "\<not> os_alloc os (printf ''> '' w) (sizeof_char * LSH_RL_BUFSIZE) \<Longrightarrow>
   main os w = Exits EXIT_FAILURE
                 (fprintf_stderr allocation_error ((printf ''> '' w)\<lparr>clock := Suc (clock w)\<rparr>))"
  by (simp add: main_def lsh_loop.simps [of os w] lsh_read_line_def malloc_def printf_def)

text \<open>
  Claim C6. When the loop returns, which it does only after \<open>lsh_execute\<close> returned 0,
  that is on the builtin exit, \<open>main\<close> ends the process with \<^verbatim>\<open>EXIT_SUCCESS\<close>. End-of-file
  ends the process with \<^verbatim>\<open>EXIT_SUCCESS\<close> at once, whatever has been read of the line, and
  so from any world whose input is used up. A refused first allocation ends the process
  with \<^verbatim>\<open>EXIT_FAILURE\<close>. And whenever the process ends, its status is \<^verbatim>\<open>EXIT_SUCCESS\<close>,
  or it is \<^verbatim>\<open>EXIT_FAILURE\<close> and an allocation was refused just before.
\<close>

theorem main_exit_status:
  "(lsh_loop os w = Returns u w' \<longrightarrow> main os w = Exits EXIT_SUCCESS w')
   \<and> (lsh_execute os args w = Returns 0 w' \<longrightarrow>
        (\<exists>a0 rest. args = a0 # rest \<and> strcmp a0 ''exit'' = 0))
   \<and> (stdin w = [] \<longrightarrow> read_while os bufsize buffer w = Exits EXIT_SUCCESS w)
   \<and> (stdin w = [] \<and> os_alloc os (printf ''> '' w) (sizeof_char * LSH_RL_BUFSIZE) \<longrightarrow>
        main os w = Exits EXIT_SUCCESS ((printf ''> '' w)\<lparr>clock := Suc (clock w)\<rparr>))
   \<and> (\<not> os_alloc os (printf ''> '' w) (sizeof_char * LSH_RL_BUFSIZE) \<longrightarrow>
        main os w = Exits EXIT_FAILURE
          (fprintf_stderr allocation_error ((printf ''> '' w)\<lparr>clock := Suc (clock w)\<rparr>)))
   \<and> (main os w = Exits c w' \<longrightarrow>
        c = EXIT_SUCCESS
        \<or> (c = EXIT_FAILURE
            \<and> (\<exists>w0 n. \<not> os_alloc os w0 n
                   \<and> w' = fprintf_stderr allocation_error (w0\<lparr>clock := Suc (clock w0)\<rparr>))))"
proof (intro conjI impI)
  assume "lsh_loop os w = Returns u w'"
  then show "main os w = Exits EXIT_SUCCESS w'"
    by (simp add: main_def)
next
  assume "lsh_execute os args w = Returns 0 w'"
  then show "\<exists>a0 rest. args = a0 # rest \<and> strcmp a0 ''exit'' = 0"
    by (rule lsh_execute_terminate)
next
  assume "stdin w = []"
  then show "read_while os bufsize buffer w = Exits EXIT_SUCCESS w"
    by (rule read_while_eof)
next
  assume "stdin w = [] \<and> os_alloc os (printf ''> '' w) (sizeof_char * LSH_RL_BUFSIZE)"
  then show "main os w = Exits EXIT_SUCCESS ((printf ''> '' w)\<lparr>clock := Suc (clock w)\<rparr>)"
    by (simp add: main_eof)
next
  assume "\<not> os_alloc os (printf ''> '' w) (sizeof_char * LSH_RL_BUFSIZE)"
  then show "main os w = Exits EXIT_FAILURE
          (fprintf_stderr allocation_error ((printf ''> '' w)\<lparr>clock := Suc (clock w)\<rparr>))"
    by (rule main_first_allocation_fails)
next
  assume "main os w = Exits c w'"
  then have "lsh_loop os w = Exits c w' \<or> (c = EXIT_SUCCESS \<and> (\<exists>u. lsh_loop os w = Returns u w'))"
    by (auto simp: main_def split: result.splits)
  then have "c = EXIT_SUCCESS \<or> allocation_failure os c w'"
    by (auto dest: lsh_loop_Exits)
  then show "c = EXIT_SUCCESS
        \<or> (c = EXIT_FAILURE
            \<and> (\<exists>w0 n. \<not> os_alloc os w0 n
                   \<and> w' = fprintf_stderr allocation_error (w0\<lparr>clock := Suc (clock w0)\<rparr>)))"
    by (simp add: allocation_failure_def)
qed

text \<open>An operating system like \<open>example_os\<close> that refuses the second allocation.\<close>

definition low_memory_os :: os where
  "low_memory_os = example_os\<lparr>os_alloc := (\<lambda>w n. clock w = 0)\<rparr>"

theorem main_exit_status_witness:
  "main example_os (example_world ''ls'') =
     Exits EXIT_SUCCESS ((example_world [])\<lparr>stdout := ''> '', clock := 1\<rparr>)
   \<and> main low_memory_os (example_world (''ls'' @ [NL])) =
     Exits EXIT_FAILURE ((example_world [])\<lparr>stdout := ''> '', clock := 2,
                           stderr := ''lsh: allocation error'' @ [NL]\<rparr>)
   \<and> EXIT_FAILURE \<noteq> EXIT_SUCCESS
   \<and> (\<exists>w0 n. \<not> os_alloc low_memory_os w0 n
          \<and> (example_world [])\<lparr>stdout := ''> '', clock := 2,
                                  stderr := ''lsh: allocation error'' @ [NL]\<rparr>
              = fprintf_stderr allocation_error (w0\<lparr>clock := Suc (clock w0)\<rparr>))"
proof -
  let ?w1 = "(example_world [])\<lparr>stdout := ''> '', clock := 1\<rparr>"
  let ?w2 = "(example_world [])\<lparr>stdout := ''> '', clock := 2,
                                 stderr := ''lsh: allocation error'' @ [NL]\<rparr>"
  define w where "w = example_world (''ls'' @ [NL])"
  have e: "lsh_read_line example_os (printf ''> '' (example_world ''ls''))
             = Exits EXIT_SUCCESS ?w1"
    by (simp add: lsh_read_line_def malloc_def example_os_def example_world_def printf_def
          read_while_unfold LSH_RL_BUFSIZE_def sizeof_char_def NL_def)
  have a: "main example_os (example_world ''ls'') = Exits EXIT_SUCCESS ?w1"
    by (simp add: main_def lsh_loop.simps [of example_os "example_world ''ls''"] e)
  have r: "lsh_read_line low_memory_os (printf ''> '' w) = Returns ''ls'' ?w1"
    by (simp add: w_def lsh_read_line_def malloc_def low_memory_os_def example_os_def
          example_world_def printf_def read_while_unfold LSH_RL_BUFSIZE_def sizeof_char_def
          NL_def NUL_def c_str_def)
  have s: "lsh_split_line low_memory_os ''ls'' ?w1 = Exits EXIT_FAILURE ?w2"
    by (simp add: lsh_split_line_def malloc_def low_memory_os_def example_os_def
          example_world_def fprintf_stderr_def allocation_error_def)
  have b: "main low_memory_os w = Exits EXIT_FAILURE ?w2"
    unfolding main_def lsh_loop.simps [of low_memory_os w] r s result.case by (rule refl)
  have n: "EXIT_FAILURE \<noteq> EXIT_SUCCESS"
    by (simp add: EXIT_FAILURE_def EXIT_SUCCESS_def)
  note t = main_exit_status [of low_memory_os w _ ?w2 _ _ _ EXIT_FAILURE]
  from t b n have "\<exists>w0 n. \<not> os_alloc low_memory_os w0 n
          \<and> ?w2 = fprintf_stderr allocation_error (w0\<lparr>clock := Suc (clock w0)\<rparr>)"
    by blast
  with a b n show ?thesis unfolding w_def by simp
qed

end
